theory Spec2Isabelle
  imports Main
begin

section \<open>The dependency-injection container (\<open>Injector\<close>)\<close>

text \<open>
  A shallow embedding of the class \<open>Injector\<close>: its registry (\<open>container\<close>), its
  singleton cache (\<open>singletons\<close>), the scope caches created by \<open>createScope\<close>, and the
  recursive resolution \<open>getInstance\<close> / \<open>createInstance\<close>.

  JavaScript objects have an identity, and the container's lifetimes are statements
  about identity (\<open>===\<close>). The model therefore carries an object heap. The \<open>Map\<close>
  objects created by \<open>createScope\<close> live in a store of their own, addressed by the scope
  handle. A thrown \<open>Error\<close> is the left summand of the result; the state reached at
  the moment of the throw is returned with it, since an exception undoes nothing.

  The container runs code it does not own: the factory of l.66 and the constructor of
  l.69. Both are client code, and client code can do whatever the public interface
  allows, also while a resolution is under way: register, create scopes, resolve. It is
  modelled as a tree of such calls (\<open>client\<close>), interpreted by \<open>exec\<close>.
\<close>

subsection \<open>Data\<close>

datatype LifeStyle = PerRequest | Scoped | Singleton

text \<open>\<open>InjectionToken<T> = symbol\<close>: an opaque identity.\<close>
type_synonym InjectionToken = nat

text \<open>\<open>any\<close>: a reference to a heap object, a primitive (the string literals of
  \<open>constructorParams\<close>), or \<open>undefined\<close>.\<close>
datatype val = Obj nat | Lit string | Undefined

text \<open>A heap object remembers its class and, when the container made it, the argument
  list its constructor was invoked with.\<close>
record obj =
  cls :: string
  ctor_args :: "val list"

datatype error =
    NotRegistered InjectionToken   \<comment> \<open>\<open>Error("Dependency not registered: " + token)\<close>\<close>
  | NoActiveScope                  \<comment> \<open>\<open>Error("Cannot resolve Scoped dependency outside scope")\<close>\<close>
  | StackOverflow                  \<comment> \<open>\<open>RangeError\<close>: the call stack is exhausted\<close>
  | NotAConstructor                \<comment> \<open>\<open>TypeError\<close>: \<open>new null(...)\<close>\<close>
  | BuildFailure string            \<comment> \<open>an error of the client's own\<close>

text \<open>
  Client code, as the calls it makes. A continuation receives what the call returned;
  the continuation of a resolution receives the error too, so that the client may catch
  it or raise it again.
  \<^item> \<open>Return v\<close>, \<open>Raise e\<close>: \<open>return v\<close>, \<open>throw e\<close>;
  \<^item> \<open>Alloc ob k\<close>: the client makes an object of its own and goes on with its reference;
  \<^item> \<open>Load a k\<close>, \<open>Store a v c\<close>: a variable the closure has captured (\<open>let first = true\<close>);
  \<^item> \<open>Register\<close>, \<open>RegisterFactory\<close>, \<open>CreateScope\<close>, \<open>GetInstance\<close>, \<open>ScopeResolve\<close>: the
    public methods of the injector and of a scope handle.
  A class is its name and its constructor: client code that receives the arguments and
  the reference of the new object (\<open>this\<close>).
\<close>
datatype client =
    Return val
  | Raise error
  | Alloc obj "nat \<Rightarrow> client"
  | Load nat "val \<Rightarrow> client"
  | Store nat val client
  | Register InjectionToken "string \<times> (val list \<Rightarrow> nat \<Rightarrow> client)" LifeStyle
      "InjectionToken list" "val list" client
  | RegisterFactory InjectionToken client LifeStyle client
  | CreateScope "nat \<Rightarrow> client"
  | GetInstance InjectionToken "error + val \<Rightarrow> client"
  | ScopeResolve nat InjectionToken "error + val \<Rightarrow> client"

text \<open>\<open>ClassType<T> = new (...args: any[]) => T\<close> and \<open>Factory<T> = () => T\<close>.\<close>
type_synonym ClassType = "string \<times> (val list \<Rightarrow> nat \<Rightarrow> client)"
type_synonym Factory = client

definition cname :: "ClassType \<Rightarrow> string" where
  "cname c = fst c"

definition ctor :: "ClassType \<Rightarrow> val list \<Rightarrow> nat \<Rightarrow> client" where
  "ctor c = snd c"

text \<open>A class whose constructor only keeps its parameters, as all six classes of the
  source do (\<open>constructor(private path: string) {}\<close>).\<close>
definition plain_class :: "string \<Rightarrow> ClassType" where
  "plain_class name = (name, \<lambda>args this. Return Undefined)"

record Registration =
  implementation :: "ClassType option"
  lifestyle :: LifeStyle
  dependencies :: "InjectionToken list"
  constructorParams :: "val list"
  factory :: "Factory option"

text \<open>The injector's two private maps, the store of scope caches (\<open>scopes s h\<close> is the
  \<open>Map\<close> behind handle \<open>h\<close>; \<open>nscopes\<close> counts the handles handed out), the heap, and
  the variables the client's closures have captured. A scope context is the handle of
  such a cache: the \<open>Map\<close> that \<open>createScope\<close> makes is reachable through the handle's
  \<open>resolve\<close> only, so nothing but \<open>resolveScoped\<close> ever writes to it. The cache behind a
  handle that was never handed out is left arbitrary.\<close>
record state =
  container :: "InjectionToken \<rightharpoonup> Registration"
  singletons :: "InjectionToken \<rightharpoonup> val"
  scopes :: "nat \<Rightarrow> (InjectionToken \<rightharpoonup> val)"
  nscopes :: nat
  heap :: "obj list"
  mem :: "nat \<Rightarrow> val"

type_synonym 'a result = "(error + 'a) \<times> state"

text \<open>\<open>this.getInstance\<close>, as the helper methods and the client see it.\<close>
type_synonym resolver = "state \<Rightarrow> InjectionToken \<Rightarrow> nat option \<Rightarrow> val result"

definition new_Injector :: state where
  "new_Injector = \<lparr>container = Map.empty, singletons = Map.empty,
     scopes = (\<lambda>_. Map.empty), nscopes = 0, heap = [], mem = (\<lambda>_. Undefined)\<rparr>"

subsection \<open>Registration\<close>

definition register ::
  "InjectionToken \<Rightarrow> ClassType \<Rightarrow> LifeStyle \<Rightarrow> InjectionToken list \<Rightarrow> val list \<Rightarrow> state \<Rightarrow> state" where
  "register token classType lifestyle' dependencies' constructorParams' s =
     s\<lparr>container := (container s)(token \<mapsto>
        \<lparr>implementation = Some classType, lifestyle = lifestyle',
         dependencies = dependencies', constructorParams = constructorParams',
         factory = None\<rparr>)\<rparr>"

definition registerFactory :: "InjectionToken \<Rightarrow> Factory \<Rightarrow> LifeStyle \<Rightarrow> state \<Rightarrow> state" where
  "registerFactory token factory' lifestyle' s =
     s\<lparr>container := (container s)(token \<mapsto>
        \<lparr>implementation = None, lifestyle = lifestyle',
         dependencies = [], constructorParams = [],
         factory = Some factory'\<rparr>)\<rparr>"

text \<open>\<open>createScope()\<close>: a handle on a new, empty \<open>Map\<close>; the handle's \<open>resolve\<close> is
  \<open>getInstance\<close> with that map.\<close>
definition createScope :: "state \<Rightarrow> nat \<times> state" where
  "createScope s =
     (nscopes s, s\<lparr>scopes := (scopes s)(nscopes s := Map.empty), nscopes := Suc (nscopes s)\<rparr>)"

subsection \<open>Running client code\<close>

text \<open>\<open>exec self c s\<close> runs the client code \<open>c\<close> from state \<open>s\<close>; \<open>self\<close> is the
  injector's \<open>getInstance\<close> with the call stack that is left. A client that uses a
  handle \<open>createScope\<close> never returned has no object to call \<open>resolve\<close> on, which is an
  error of its own.\<close>
primrec exec :: "resolver \<Rightarrow> client \<Rightarrow> state \<Rightarrow> val result" where
  "exec self (Return v) s = (Inr v, s)"
| "exec self (Raise e) s = (Inl e, s)"
| "exec self (Alloc ob k) s = exec self (k (length (heap s))) (s\<lparr>heap := heap s @ [ob]\<rparr>)"
| "exec self (Load a k) s = exec self (k (mem s a)) s"
| "exec self (Store a v c) s = exec self c (s\<lparr>mem := (mem s)(a := v)\<rparr>)"
| "exec self (Register token classType l deps params c) s =
     exec self c (register token classType l deps params s)"
| "exec self (RegisterFactory token f l c) s = exec self c (registerFactory token f l s)"
| "exec self (CreateScope k) s = exec self (k (fst (createScope s))) (snd (createScope s))"
| "exec self (GetInstance token k) s =
     exec self (k (fst (self s token None))) (snd (self s token None))"
| "exec self (ScopeResolve h token k) s =
     (if h < nscopes s
      then exec self (k (fst (self s token (Some h)))) (snd (self s token (Some h)))
      else (Inl (BuildFailure ''no such scope handle''), s))"

subsection \<open>Resolution\<close>

text \<open>\<open>new classType(...args)\<close>: a fresh object is made, the constructor runs with it
  as \<open>this\<close>, and the result is the object the constructor returns, if it returns one,
  and \<open>this\<close> otherwise.\<close>
definition new_obj :: "resolver \<Rightarrow> ClassType \<Rightarrow> val list \<Rightarrow> state \<Rightarrow> val result" where
  "new_obj self c args s =
     (case exec self (ctor c args (length (heap s)))
             (s\<lparr>heap := heap s @ [\<lparr>cls = cname c, ctor_args = args\<rparr>]\<rparr>) of
        (Inl e, s') \<Rightarrow> (Inl e, s')
      | (Inr (Obj j), s') \<Rightarrow> (Inr (Obj j), s')
      | (Inr _, s') \<Rightarrow> (Inr (Obj (length (heap s))), s'))"

text \<open>\<open>registration.dependencies.map((depToken) => this.getInstance(depToken, scopeCache))\<close>\<close>
primrec resolveDependencies ::
  "resolver \<Rightarrow> InjectionToken list \<Rightarrow> state \<Rightarrow> nat option \<Rightarrow> (val list) result" where
  "resolveDependencies self [] s scopeCache = (Inr [], s)"
| "resolveDependencies self (depToken # rest) s scopeCache =
     (case self s depToken scopeCache of
        (Inl e, s') \<Rightarrow> (Inl e, s')
      | (Inr v, s') \<Rightarrow>
          (case resolveDependencies self rest s' scopeCache of
             (Inl e, s'') \<Rightarrow> (Inl e, s'')
           | (Inr vs, s'') \<Rightarrow> (Inr (v # vs), s'')))"

definition createInstance :: "resolver \<Rightarrow> state \<Rightarrow> Registration \<Rightarrow> nat option \<Rightarrow> val result" where
  "createInstance self s registration scopeCache =
     (case factory registration of
        Some f \<Rightarrow> exec self f s
      | None \<Rightarrow>
          (case resolveDependencies self (dependencies registration) s scopeCache of
             (Inl e, s') \<Rightarrow> (Inl e, s')
           | (Inr resolvedDependencies, s') \<Rightarrow>
               (case implementation registration of
                  None \<Rightarrow> (Inl NotAConstructor, s')
                | Some c \<Rightarrow>
                    new_obj self c (resolvedDependencies @ constructorParams registration) s')))"

definition resolveSingleton ::
  "resolver \<Rightarrow> state \<Rightarrow> InjectionToken \<Rightarrow> Registration \<Rightarrow> nat option \<Rightarrow> val result" where
  "resolveSingleton self s token registration scopeCache =
     (case singletons s token of
        None \<Rightarrow>
          (case createInstance self s registration scopeCache of
             (Inl e, s') \<Rightarrow> (Inl e, s')
           | (Inr v, s') \<Rightarrow> (Inr v, s'\<lparr>singletons := (singletons s')(token \<mapsto> v)\<rparr>))
      | Some v \<Rightarrow> (Inr v, s))"

definition resolveScoped ::
  "resolver \<Rightarrow> state \<Rightarrow> InjectionToken \<Rightarrow> Registration \<Rightarrow> nat \<Rightarrow> val result" where
  "resolveScoped self s token registration h =
     (case scopes s h token of
        None \<Rightarrow>
          (case createInstance self s registration (Some h) of
             (Inl e, s') \<Rightarrow> (Inl e, s')
           | (Inr v, s') \<Rightarrow> (Inr v, s'\<lparr>scopes := (scopes s')(h := (scopes s' h)(token \<mapsto> v))\<rparr>))
      | Some v \<Rightarrow> (Inr v, s))"

text \<open>
  The first argument is the depth of call stack left: \<open>getInstance\<close> and
  \<open>createInstance\<close> call each other without a cycle check, and a cyclic registration
  ends in the engine's \<open>RangeError\<close>. Whatever \<open>getInstance\<close> calls, the helper methods
  and the client code they run, calls \<open>getInstance\<close> back with one frame less.
\<close>
primrec getInstance :: "nat \<Rightarrow> state \<Rightarrow> InjectionToken \<Rightarrow> nat option \<Rightarrow> val result" where
  "getInstance 0 s token scopeCache = (Inl StackOverflow, s)"
| "getInstance (Suc n) s token scopeCache =
     (case container s token of
        None \<Rightarrow> (Inl (NotRegistered token), s)
      | Some registration \<Rightarrow>
          (case lifestyle registration of
             Singleton \<Rightarrow> resolveSingleton (getInstance n) s token registration scopeCache
           | Scoped \<Rightarrow>
               (case scopeCache of
                  None \<Rightarrow> (Inl NoActiveScope, s)
                | Some h \<Rightarrow> resolveScoped (getInstance n) s token registration h)
           | PerRequest \<Rightarrow> createInstance (getInstance n) s registration scopeCache))"

text \<open>A client program run from outside any resolution, with stack depth \<open>n\<close>.\<close>
definition run :: "nat \<Rightarrow> client \<Rightarrow> state \<Rightarrow> state" where
  "run n c s = snd (exec (getInstance n) c s)"

subsection \<open>The configurations of the source\<close>

definition IStorageToken :: InjectionToken where "IStorageToken = 0"
definition ILoggerToken :: InjectionToken where "ILoggerToken = 1"
definition IProcessorToken :: InjectionToken where "IProcessorToken = 2"

definition configureProduction :: "state \<Rightarrow> state" where
  "configureProduction injector =
     register IProcessorToken (plain_class ''AdvancedProcessor'') Scoped
         [ILoggerToken, IStorageToken] []
       (register ILoggerToken (plain_class ''FileLogger'') Singleton [] [Lit ''prod.log'']
         (register IStorageToken (plain_class ''FileStorage'') Singleton [] [Lit ''prod.db'']
            injector))"

text \<open>\<open>() => new DatabaseStorage()\<close>\<close>
definition new_DatabaseStorage :: Factory where
  "new_DatabaseStorage = Alloc \<lparr>cls = ''DatabaseStorage'', ctor_args = []\<rparr> (\<lambda>i. Return (Obj i))"

definition configureDebug :: "state \<Rightarrow> state" where
  "configureDebug injector =
     register IProcessorToken (plain_class ''SimpleProcessor'') PerRequest
         [ILoggerToken, IStorageToken] []
       (register ILoggerToken (plain_class ''ConsoleLogger'') PerRequest [] []
         (registerFactory IStorageToken new_DatabaseStorage Singleton injector))"

text \<open>\<open>demonstrate()\<close>, with the three comparisons it prints as its result.\<close>
definition demonstrate :: "nat \<Rightarrow> bool \<times> bool \<times> bool" where
  "demonstrate n =
     (let prodInjector = configureProduction new_Injector;
          (scope1, prod1) = createScope prodInjector;
          (processor1, prod2) = getInstance n prod1 IProcessorToken (Some scope1);
          (processor2, prod3) = getInstance n prod2 IProcessorToken (Some scope1);
          debugInjector = configureDebug new_Injector;
          (proc1, debug1) = getInstance n debugInjector IProcessorToken None;
          (proc2, debug2) = getInstance n debug1 IProcessorToken None;
          (storage1, debug3) = getInstance n debug2 IStorageToken None;
          (storage2, debug4) = getInstance n debug3 IStorageToken None
      in (processor1 = processor2, proc1 \<noteq> proc2, storage1 = storage2))"

subsection \<open>Vocabulary of the properties\<close>

text \<open>The token's stored registration has the given lifetime.\<close>
definition has_lifestyle :: "state \<Rightarrow> InjectionToken \<Rightarrow> LifeStyle \<Rightarrow> bool" where
  "has_lifestyle s t l = (case container s t of None \<Rightarrow> False | Some r \<Rightarrow> lifestyle r = l)"

text \<open>Client code that never returns an object: as a constructor, it leaves \<open>new\<close> with
  the fresh \<open>this\<close>.\<close>
primrec returns_this :: "client \<Rightarrow> bool" where
  "returns_this (Return v) = (\<forall>j. v \<noteq> Obj j)"
| "returns_this (Raise e) = True"
| "returns_this (Alloc ob k) = (\<forall>i. returns_this (k i))"
| "returns_this (Load a k) = (\<forall>v. returns_this (k v))"
| "returns_this (Store a v c) = returns_this c"
| "returns_this (Register token classType l deps params c) = returns_this c"
| "returns_this (RegisterFactory token f l c) = returns_this c"
| "returns_this (CreateScope k) = (\<forall>h. returns_this (k h))"
| "returns_this (GetInstance token k) = (\<forall>r. returns_this (k r))"
| "returns_this (ScopeResolve h token k) = (\<forall>r. returns_this (k r))"


text \<open>Client code that does not call the container and throws errors of its own only.\<close>
primrec inert :: "client \<Rightarrow> bool" where
  "inert (Return v) = True"
| "inert (Raise e) = (\<exists>msg. e = BuildFailure msg)"
| "inert (Alloc ob k) = (\<forall>i. inert (k i))"
| "inert (Load a k) = (\<forall>v. inert (k v))"
| "inert (Store a v c) = inert c"
| "inert (Register token classType l deps params c) = False"
| "inert (RegisterFactory token f l c) = False"
| "inert (CreateScope k) = False"
| "inert (GetInstance token k) = False"
| "inert (ScopeResolve h token k) = False"

text \<open>No factory and no constructor in the registry calls back into the container.\<close>
definition inert_registry :: "state \<Rightarrow> bool" where
  "inert_registry s \<longleftrightarrow>
     (\<forall>t r. container s t = Some r \<longrightarrow>
        (\<forall>f. factory r = Some f \<longrightarrow> inert f) \<and>
        (\<forall>c args this. implementation r = Some c \<longrightarrow> inert (ctor c args this)))"


text \<open>What every call of a public method preserves, whatever client code runs in it:
  handles are never withdrawn; an entry that the singleton cache or the cache of an
  existing scope holds when the call starts is still there, unchanged, when it returns;
  the heap only grows.\<close>
definition grows :: "state \<Rightarrow> state \<Rightarrow> bool" where
  "grows s s' \<longleftrightarrow>
     nscopes s \<le> nscopes s' \<and>
     singletons s \<subseteq>\<^sub>m singletons s' \<and>
     (\<forall>h < nscopes s. scopes s h \<subseteq>\<^sub>m scopes s' h) \<and>
     (\<exists>allocated. heap s' = heap s @ allocated)"

text \<open>What a resolution does to the state when the client code it runs is inert and
  it is given the scope context \<open>sc\<close>: the registry and the set of handles stay as they
  are; both kinds of cache and the heap only grow; no scope cache but the given one is
  touched; and a cache gains an entry only for a token of the matching lifetime.\<close>
definition frame :: "nat option \<Rightarrow> state \<Rightarrow> state \<Rightarrow> bool" where
  "frame sc s s' \<longleftrightarrow>
     container s' = container s \<and> nscopes s' = nscopes s \<and>
     singletons s \<subseteq>\<^sub>m singletons s' \<and>
     (\<forall>h. scopes s h \<subseteq>\<^sub>m scopes s' h) \<and>
     (\<forall>h. sc \<noteq> Some h \<longrightarrow> scopes s' h = scopes s h) \<and>
     (\<exists>allocated. heap s' = heap s @ allocated) \<and>
     (\<forall>t. singletons s' t \<noteq> singletons s t \<longrightarrow> has_lifestyle s t Singleton) \<and>
     (\<forall>h t. scopes s' h t \<noteq> scopes s h t \<longrightarrow> has_lifestyle s t Scoped)"

text \<open>The invariants above, as properties of a resolver: the helper methods are shown
  to preserve each of them for any \<open>self\<close> that does, and \<open>getInstance\<close> then has them
  at every stack depth.\<close>

text \<open>A resolver every call of which preserves \<open>grows\<close>.\<close>
definition growing :: "resolver \<Rightarrow> bool" where
  "growing self \<longleftrightarrow> (\<forall>s t sc. grows s (snd (self s t sc)))"

text \<open>Inert code changes the heap and its own variables, nothing else.\<close>
definition quiet :: "state \<Rightarrow> state \<Rightarrow> bool" where
  "quiet s s' \<longleftrightarrow> (\<exists>allocated m. s' = s\<lparr>heap := heap s @ allocated, mem := m\<rparr>)"

text \<open>A resolver every call of which keeps to the frame, from a registry of inert code.\<close>
definition framing :: "resolver \<Rightarrow> bool" where
  "framing self \<longleftrightarrow> (\<forall>s t sc. inert_registry s \<longrightarrow> frame sc s (snd (self s t sc)))"




text \<open>Client code that does not call \<open>register\<close> or \<open>registerFactory\<close>.\<close>
primrec keeps_registry :: "client \<Rightarrow> bool" where
  "keeps_registry (Return v) = True"
| "keeps_registry (Raise e) = True"
| "keeps_registry (Alloc ob k) = (\<forall>i. keeps_registry (k i))"
| "keeps_registry (Load a k) = (\<forall>v. keeps_registry (k v))"
| "keeps_registry (Store a v c) = keeps_registry c"
| "keeps_registry (Register token classType l deps params c) = False"
| "keeps_registry (RegisterFactory token f l c) = False"
| "keeps_registry (CreateScope k) = (\<forall>h. keeps_registry (k h))"
| "keeps_registry (GetInstance token k) = (\<forall>r. keeps_registry (k r))"
| "keeps_registry (ScopeResolve h token k) = (\<forall>r. keeps_registry (k r))"




subsection \<open>Scenarios\<close>



definition storage_resolved :: state where
  "storage_resolved = snd (getInstance 2 (configureProduction new_Injector) IStorageToken None)"


definition later_calls :: client where
  "later_calls =
     CreateScope (\<lambda>h.
     ScopeResolve h IProcessorToken (\<lambda>_.
     Register IStorageToken (plain_class ''DatabaseStorage'') Singleton [] [] (
     RegisterFactory ILoggerToken (Return (Lit ''none'')) PerRequest (
     GetInstance IProcessorToken (\<lambda>_.
     CreateScope (\<lambda>h'.
     ScopeResolve h' IProcessorToken (\<lambda>_. Return Undefined)))))))"

definition new_X :: client where
  "new_X = Alloc \<lparr>cls = ''X'', ctor_args = []\<rparr> (\<lambda>i. Return (Obj i))"

text \<open>\<open>let first = true;
  () => { if (first) { first = false; inner = inj.getInstance(IStorageToken) } return new X() }\<close>\<close>
definition reentrant_factory :: Factory where
  "reentrant_factory =
     Load 0 (\<lambda>first.
       if first = Undefined
       then Store 0 (Lit ''done'') (GetInstance IStorageToken (\<lambda>inner.
              case inner of Inl e \<Rightarrow> Raise e | Inr v \<Rightarrow> Store 1 v new_X))
       else new_X)"

definition reentrant_singleton :: state where
  "reentrant_singleton = registerFactory IStorageToken reentrant_factory Singleton new_Injector"

definition reentrant_inner :: state where
  "reentrant_inner = reentrant_singleton\<lparr>mem := (mem reentrant_singleton)(0 := Lit ''done'')\<rparr>"



text \<open>\<open>() => { inj.registerFactory(IStorageToken, () => new DatabaseStorage(), Singleton);
  inj.getInstance(IStorageToken); return new X() }\<close>\<close>
definition replacing_factory :: Factory where
  "replacing_factory =
     RegisterFactory IStorageToken new_DatabaseStorage Singleton
       (GetInstance IStorageToken (\<lambda>inner. new_X))"

definition replaced_entry :: state where
  "replaced_entry = registerFactory IStorageToken replacing_factory Singleton new_Injector"

definition replaced_inner :: state where
  "replaced_inner = registerFactory IStorageToken new_DatabaseStorage Singleton replaced_entry"

definition report_registration :: Registration where
  "report_registration = \<lparr>implementation = Some (plain_class ''Report''), lifestyle = PerRequest,
     dependencies = [ILoggerToken, IStorageToken], constructorParams = [Lit ''weekly''],
     factory = None\<rparr>"

















section \<open>Properties\<close>

subsection \<open>What every call preserves\<close>

lemma grows_refl: "grows s s"
  by (simp add: grows_def)

lemma grows_trans: "grows s s1 \<Longrightarrow> grows s1 s2 \<Longrightarrow> grows s s2"
  unfolding grows_def
  apply (intro conjI)
     apply simp
    apply (blast intro: map_le_trans)
   apply (meson map_le_trans less_le_trans)
  apply (elim conjE exE)
  apply simp
  done

lemma grows_alloc: "grows s (s\<lparr>heap := heap s @ [ob]\<rparr>)"
  by (simp add: grows_def)

lemma grows_store: "grows s (s\<lparr>mem := m\<rparr>)"
  by (simp add: grows_def)

lemma grows_register: "grows s (register t c l ds ps s)"
  by (simp add: grows_def register_def)

lemma grows_registerFactory: "grows s (registerFactory t f l s)"
  by (simp add: grows_def registerFactory_def)

lemma grows_createScope: "grows s (snd (createScope s))"
  by (simp add: grows_def createScope_def map_le_def)

lemma grows_set_singleton:
  "grows s s' \<Longrightarrow> singletons s t = None \<Longrightarrow>
   grows s (s'\<lparr>singletons := (singletons s')(t \<mapsto> v)\<rparr>)"
  unfolding grows_def by (auto simp: map_le_def dom_def)

lemma grows_set_scoped:
  "grows s s' \<Longrightarrow> scopes s h t = None \<Longrightarrow>
   grows s (s'\<lparr>scopes := (scopes s')(h := (scopes s' h)(t \<mapsto> v))\<rparr>)"
  unfolding grows_def by (auto simp: map_le_def dom_def)

lemma growingD: "growing self \<Longrightarrow> grows s (snd (self s t sc))"
  by (simp add: growing_def)

lemma grows_exec: "growing self \<Longrightarrow> grows s (snd (exec self c s))"
proof (induction c arbitrary: s)
  case (Return v)
  show ?case by (simp add: grows_refl)
next
  case (Raise e)
  show ?case by (simp add: grows_refl)
next
  case (Alloc ob k)
  show ?case
    using grows_trans [OF grows_alloc Alloc.IH [OF rangeI Alloc.prems]] by simp
next
  case (Load a k)
  show ?case using Load.IH [OF rangeI Load.prems] by simp
next
  case (Store a v c)
  show ?case using grows_trans [OF grows_store Store.IH [OF Store.prems]] by simp
next
  case (Register t cl l ds ps c)
  show ?case using grows_trans [OF grows_register Register.IH(2) [OF Register.prems]] by simp
next
  case (RegisterFactory t f l c)
  show ?case
    using grows_trans [OF grows_registerFactory RegisterFactory.IH(2) [OF RegisterFactory.prems]]
    by simp
next
  case (CreateScope k)
  show ?case
    using grows_trans [OF grows_createScope CreateScope.IH [OF rangeI CreateScope.prems]] by simp
next
  case (GetInstance t k)
  show ?case
    using grows_trans [OF growingD [OF GetInstance.prems] GetInstance.IH [OF rangeI GetInstance.prems]]
    by simp
next
  case (ScopeResolve h t k)
  show ?case
    using grows_trans [OF growingD [OF ScopeResolve.prems] ScopeResolve.IH [OF rangeI ScopeResolve.prems]]
    by (simp add: grows_refl)
qed

lemma new_obj_state:
  "snd (new_obj self c args s) =
   snd (exec self (ctor c args (length (heap s)))
          (s\<lparr>heap := heap s @ [\<lparr>cls = cname c, ctor_args = args\<rparr>]\<rparr>))"
  by (simp add: new_obj_def split: prod.splits sum.splits val.splits)

lemma grows_new_obj:
  assumes "growing self"
  shows "grows s (snd (new_obj self c args s))"
  unfolding new_obj_state
  by (rule grows_trans [OF grows_alloc grows_exec [OF assms]])

lemma grows_resolveDependencies:
  assumes "growing self"
  shows "grows s (snd (resolveDependencies self ds s sc))"
proof (induction ds arbitrary: s)
  case Nil
  show ?case by (simp add: grows_refl)
next
  case (Cons d ds)
  obtain x s1 where g: "self s d sc = (x, s1)" by (cases "self s d sc")
  have 1: "grows s s1" using growingD [OF assms, of s d sc] g by simp
  have 2: "grows s1 (snd (resolveDependencies self ds s1 sc))" by (rule Cons.IH)
  show ?case
    using 1 grows_trans [OF 1 2] g by (auto split: prod.splits sum.splits)
qed

lemma grows_createInstance:
  assumes "growing self"
  shows "grows s (snd (createInstance self s r sc))"
proof (cases "factory r")
  case (Some f)
  then show ?thesis using grows_exec [OF assms] by (simp add: createInstance_def)
next
  case None
  obtain x s1 where d: "resolveDependencies self (dependencies r) s sc = (x, s1)"
    by (cases "resolveDependencies self (dependencies r) s sc")
  have 1: "grows s s1" using grows_resolveDependencies [OF assms, of s "dependencies r" sc] d by simp
  have 2: "grows s (snd (new_obj self c args s1))" for c args
    by (rule grows_trans [OF 1 grows_new_obj [OF assms]])
  show ?thesis
    using None d 1 2 by (auto simp: createInstance_def split: option.splits sum.splits)
qed

lemma grows_resolveSingleton:
  "growing self \<Longrightarrow> grows s (snd (resolveSingleton self s t r sc))"
  using grows_createInstance [of self s r sc]
  by (auto simp: resolveSingleton_def grows_refl split: option.splits prod.splits sum.splits
      intro: grows_set_singleton)

lemma grows_resolveScoped:
  "growing self \<Longrightarrow> grows s (snd (resolveScoped self s t r h))"
  using grows_createInstance [of self s r "Some h"]
  by (auto simp: resolveScoped_def grows_refl split: option.splits prod.splits sum.splits
      intro: grows_set_scoped)

lemma growing_getInstance: "growing (getInstance n)"
proof (induction n)
  case 0
  show ?case by (simp add: growing_def grows_refl)
next
  case (Suc n)
  show ?case
    unfolding growing_def
    using grows_resolveSingleton [OF Suc] grows_resolveScoped [OF Suc] grows_createInstance [OF Suc]
    by (auto simp: grows_refl split: option.splits LifeStyle.splits)
qed

lemma grows_getInstance: "grows s (snd (getInstance n s t sc))"
  using growing_getInstance by (rule growingD)

lemma grows_run: "grows s (run n c s)"
  unfolding run_def using growing_getInstance by (rule grows_exec)

subsection \<open>Cache hits and cache fills\<close>

lemma singleton_cached:
  "has_lifestyle s t Singleton \<Longrightarrow> singletons s t = Some v \<Longrightarrow>
   getInstance (Suc n) s t sc = (Inr v, s)"
  by (auto simp: has_lifestyle_def resolveSingleton_def split: option.splits)

lemma singleton_result:
  "has_lifestyle s t Singleton \<Longrightarrow> getInstance n s t sc = (Inr v, s') \<Longrightarrow>
   singletons s' t = Some v"
  by (cases n)
    (auto simp: has_lifestyle_def resolveSingleton_def split: option.splits prod.splits sum.splits)



lemma singletons_grows: "grows s s' \<Longrightarrow> singletons s t = Some v \<Longrightarrow> singletons s' t = Some v"
  by (auto simp: grows_def map_le_def dom_def)


lemma heap_grows: "grows s s' \<Longrightarrow> length (heap s) \<le> length (heap s')"
  by (auto simp: grows_def)

lemma heap_extends:
  "grows s s' \<Longrightarrow> i < length (heap s) \<Longrightarrow> heap s' ! i = heap s ! i"
  by (auto simp: grows_def nth_append)


subsection \<open>Inert client code\<close>

lemma quiet_refl: "quiet s s"
proof -
  have "s = s\<lparr>heap := heap s @ [], mem := mem s\<rparr>" by simp
  then show ?thesis unfolding quiet_def by blast
qed

lemma quiet_trans:
  assumes "quiet s s1" and "quiet s1 s2"
  shows "quiet s s2"
proof -
  obtain a1 m1 where 1: "s1 = s\<lparr>heap := heap s @ a1, mem := m1\<rparr>"
    using assms(1) unfolding quiet_def by blast
  obtain a2 m2 where 2: "s2 = s1\<lparr>heap := heap s1 @ a2, mem := m2\<rparr>"
    using assms(2) unfolding quiet_def by blast
  have "s2 = s\<lparr>heap := heap s @ (a1 @ a2), mem := m2\<rparr>"
    using 1 2 by simp
  then show ?thesis unfolding quiet_def by blast
qed

lemma quiet_alloc: "quiet s (s\<lparr>heap := heap s @ [ob]\<rparr>)"
proof -
  have "s\<lparr>heap := heap s @ [ob]\<rparr> = s\<lparr>heap := heap s @ [ob], mem := mem s\<rparr>" by simp
  then show ?thesis unfolding quiet_def by blast
qed

lemma quiet_store: "quiet s (s\<lparr>mem := m\<rparr>)"
proof -
  have "s\<lparr>mem := m\<rparr> = s\<lparr>heap := heap s @ [], mem := m\<rparr>" by simp
  then show ?thesis unfolding quiet_def by blast
qed

lemma inert_exec:
  "inert c \<Longrightarrow> quiet s (snd (exec self c s)) \<and>
     (\<forall>e. fst (exec self c s) = Inl e \<longrightarrow> (\<exists>msg. e = BuildFailure msg))"
proof (induction c arbitrary: s)
  case (Return v)
  show ?case by (simp add: quiet_refl)
next
  case (Raise e)
  then show ?case by (auto simp: quiet_refl)
next
  case (Alloc ob k)
  have i: "inert (k (length (heap s)))" using Alloc.prems by simp
  show ?case
    using Alloc.IH [OF rangeI i, of "s\<lparr>heap := heap s @ [ob]\<rparr>"] quiet_trans [OF quiet_alloc]
    by auto
next
  case (Load a k)
  have i: "inert (k (mem s a))" using Load.prems by simp
  show ?case using Load.IH [OF rangeI i, of s] by simp
next
  case (Store a v c)
  have i: "inert c" using Store.prems by simp
  show ?case
    using Store.IH [OF i, of "s\<lparr>mem := (mem s)(a := v)\<rparr>"] quiet_trans [OF quiet_store]
    by auto
qed simp_all

lemma quiet_frame: "quiet s s' \<Longrightarrow> frame sc s s'"
  by (auto simp: quiet_def frame_def)

lemma quiet_new_obj:
  assumes "inert (ctor c args (length (heap s)))"
  shows "quiet s (snd (new_obj self c args s))"
  unfolding new_obj_state
  using quiet_trans [OF quiet_alloc] inert_exec [OF assms] by blast


subsection \<open>The frame of a resolution that runs inert code\<close>

lemma frame_refl: "frame sc s s"
  by (simp add: frame_def)

lemma frame_trans: "frame sc s s1 \<Longrightarrow> frame sc s1 s2 \<Longrightarrow> frame sc s s2"
  unfolding frame_def has_lifestyle_def
  apply (intro conjI)
         apply simp
        apply simp
       apply (blast intro: map_le_trans)
      apply (blast intro: map_le_trans)
     apply simp
    apply (elim conjE exE)
    apply simp
   apply metis
  apply metis
  done

lemma frame_set_singleton:
  "frame sc s s' \<Longrightarrow> singletons s t = None \<Longrightarrow> has_lifestyle s t Singleton \<Longrightarrow>
   frame sc s (s'\<lparr>singletons := (singletons s')(t \<mapsto> v)\<rparr>)"
  unfolding frame_def by (auto simp: map_le_def dom_def)

lemma frame_set_scoped:
  "frame (Some h) s s' \<Longrightarrow> scopes s h t = None \<Longrightarrow> has_lifestyle s t Scoped \<Longrightarrow>
   frame (Some h) s (s'\<lparr>scopes := (scopes s')(h := (scopes s' h)(t \<mapsto> v))\<rparr>)"
  unfolding frame_def by (auto simp: map_le_def dom_def)

lemma inert_registry_frame: "frame sc s s' \<Longrightarrow> inert_registry s \<Longrightarrow> inert_registry s'"
  by (simp add: frame_def inert_registry_def)



lemma framingD: "framing self \<Longrightarrow> inert_registry s \<Longrightarrow> frame sc s (snd (self s t sc))"
  by (simp add: framing_def)

lemma frame_resolveDependencies:
  assumes "framing self"
  shows "inert_registry s \<Longrightarrow> frame sc s (snd (resolveDependencies self ds s sc))"
proof (induction ds arbitrary: s)
  case Nil
  show ?case by (simp add: frame_refl)
next
  case (Cons d ds)
  obtain x s1 where g: "self s d sc = (x, s1)" by (cases "self s d sc")
  have 1: "frame sc s s1" using framingD [OF assms Cons.prems, of sc d] g by simp
  have 2: "frame sc s1 (snd (resolveDependencies self ds s1 sc))"
    by (rule Cons.IH [OF inert_registry_frame [OF 1 Cons.prems]])
  show ?case
    using 1 frame_trans [OF 1 2] g by (auto split: prod.splits sum.splits)
qed

lemma frame_createInstance:
  assumes "framing self" and "inert_registry s" and "container s t = Some r"
  shows "frame sc s (snd (createInstance self s r sc))"
proof (cases "factory r")
  case (Some f)
  have "inert f" using assms(2,3) Some unfolding inert_registry_def by blast
  then show ?thesis
    using Some inert_exec [of f s self] quiet_frame by (simp add: createInstance_def)
next
  case None
  obtain x s1 where d: "resolveDependencies self (dependencies r) s sc = (x, s1)"
    by (cases "resolveDependencies self (dependencies r) s sc")
  have 1: "frame sc s s1"
    using frame_resolveDependencies [OF assms(1,2), of sc "dependencies r"] d by simp
  have 2: "frame sc s (snd (new_obj self c args s1))" if "implementation r = Some c" for c args
  proof -
    have "inert (ctor c args (length (heap s1)))"
      using assms(2,3) that unfolding inert_registry_def by blast
    from quiet_frame [OF quiet_new_obj [OF this]] show ?thesis
      using frame_trans [OF 1] by blast
  qed
  show ?thesis
    using None d 1 2 by (auto simp: createInstance_def split: option.splits sum.splits)
qed

lemma frame_resolveSingleton:
  assumes "framing self" and "inert_registry s" and "container s t = Some r"
      and "lifestyle r = Singleton"
  shows "frame sc s (snd (resolveSingleton self s t r sc))"
proof -
  have l: "has_lifestyle s t Singleton" using assms(3,4) by (simp add: has_lifestyle_def)
  show ?thesis
    using frame_createInstance [OF assms(1-3), of sc] l
    by (auto simp: resolveSingleton_def frame_refl split: option.splits prod.splits sum.splits
        intro: frame_set_singleton)
qed

lemma frame_resolveScoped:
  assumes "framing self" and "inert_registry s" and "container s t = Some r"
      and "lifestyle r = Scoped"
  shows "frame (Some h) s (snd (resolveScoped self s t r h))"
proof -
  have l: "has_lifestyle s t Scoped" using assms(3,4) by (simp add: has_lifestyle_def)
  show ?thesis
    using frame_createInstance [OF assms(1-3), of "Some h"] l
    by (auto simp: resolveScoped_def frame_refl split: option.splits prod.splits sum.splits
        intro: frame_set_scoped)
qed

lemma framing_getInstance: "framing (getInstance n)"
proof (induction n)
  case 0
  show ?case by (simp add: framing_def frame_refl)
next
  case (Suc n)
  show ?case
    unfolding framing_def
  proof (intro allI impI)
    fix s t sc assume i: "inert_registry s"
    show "frame sc s (snd (getInstance (Suc n) s t sc))"
    proof (cases "container s t")
      case None
      then show ?thesis by (simp add: frame_refl)
    next
      case (Some r)
      show ?thesis
        using Some frame_resolveSingleton [OF Suc i Some] frame_resolveScoped [OF Suc i Some]
          frame_createInstance [OF Suc i Some]
        by (auto simp: frame_refl split: option.splits LifeStyle.splits)
    qed
  qed
qed


subsection \<open>Where the errors come from, when the client code is inert\<close>












subsection \<open>A run that does not end in \<open>NoActiveScope\<close> never looked at its scope context\<close>





subsection \<open>Fresh objects\<close>

lemma returns_this_exec:
  "returns_this c \<Longrightarrow> exec self c s = (Inr v, s') \<Longrightarrow> v \<noteq> Obj j"
proof (induction c arbitrary: s)
  case (Alloc ob k)
  have r: "returns_this (k (length (heap s)))" using Alloc.prems(1) by simp
  show ?case using Alloc.IH [OF rangeI r] Alloc.prems(2) by simp
next
  case (Load a k)
  have r: "returns_this (k (mem s a))" using Load.prems(1) by simp
  show ?case using Load.IH [OF rangeI r] Load.prems(2) by simp
next
  case (Store a v c)
  then show ?case by simp
next
  case (Register t cl l ds ps c)
  show ?case using Register.IH(2) Register.prems by simp
next
  case (RegisterFactory t f l c)
  show ?case using RegisterFactory.IH(2) RegisterFactory.prems by simp
next
  case (CreateScope k)
  have r: "returns_this (k (fst (createScope s)))" using CreateScope.prems(1) by simp
  show ?case using CreateScope.IH [OF rangeI r] CreateScope.prems(2) by simp
next
  case (GetInstance t k)
  have r: "returns_this (k (fst (self s t None)))" using GetInstance.prems(1) by simp
  show ?case using GetInstance.IH [OF rangeI r] GetInstance.prems(2) by simp
next
  case (ScopeResolve h t k)
  have r: "returns_this (k (fst (self s t (Some h))))" using ScopeResolve.prems(1) by simp
  show ?case using ScopeResolve.IH [OF rangeI r] ScopeResolve.prems(2)
    by (simp split: if_splits)
qed auto

lemma new_obj_fresh:
  assumes "growing self" and "returns_this (ctor c args (length (heap s)))"
      and "new_obj self c args s = (Inr v, s')"
  shows "v = Obj (length (heap s)) \<and> length (heap s) < length (heap s') \<and>
         heap s' ! length (heap s) = \<lparr>cls = cname c, ctor_args = args\<rparr>"
proof -
  let ?s1 = "s\<lparr>heap := heap s @ [\<lparr>cls = cname c, ctor_args = args\<rparr>]\<rparr>"
  obtain x s2 where e: "exec self (ctor c args (length (heap s))) ?s1 = (x, s2)"
    by (cases "exec self (ctor c args (length (heap s))) ?s1")
  obtain w where x: "x = Inr w"
    using assms(3) e by (cases x) (auto simp: new_obj_def)
  have nobj: "w \<noteq> Obj j" for j
    using returns_this_exec [OF assms(2)] e x by blast
  have v: "v = Obj (length (heap s))" and s': "s' = s2"
    using assms(3) e x nobj by (auto simp: new_obj_def split: val.splits)
  have g: "grows ?s1 s2"
    using grows_exec [OF assms(1), of ?s1 "ctor c args (length (heap s))"] e by simp
  have "length (heap ?s1) \<le> length (heap s2)" using g by (rule heap_grows)
  moreover have "heap s2 ! length (heap s) = heap ?s1 ! length (heap s)"
    using heap_extends [OF g, of "length (heap s)"] by simp
  ultimately show ?thesis using v s' by simp
qed





subsection \<open>Resolutions in which the client registers nothing\<close>


















subsection \<open>Evaluation of the scenarios\<close>

lemmas eval_simps = new_Injector_def configureProduction_def register_def registerFactory_def
        IStorageToken_def ILoggerToken_def IProcessorToken_def new_obj_def plain_class_def
        cname_def ctor_def createScope_def resolveSingleton_def resolveScoped_def
        createInstance_def eval_nat_numeral

lemma demonstrate_prints: "demonstrate 3 = (True, True, True)"
  by (simp add: eval_simps configureDebug_def demonstrate_def new_DatabaseStorage_def)

lemma inert_plain: "inert (ctor (plain_class name) args this)"
  by (simp add: plain_class_def ctor_def)

lemma keeps_plain: "keeps_registry (ctor (plain_class name) args this)"
  by (simp add: plain_class_def ctor_def)

lemma returns_this_plain: "returns_this (ctor (plain_class name) args this)"
  by (simp add: plain_class_def ctor_def)

lemma inert_registry_new: "inert_registry new_Injector"
  by (simp add: inert_registry_def new_Injector_def)

lemma inert_registry_register:
  assumes "inert_registry s" and "\<And>args this. inert (ctor c args this)"
  shows "inert_registry (register t c l ds ps s)"
  unfolding inert_registry_def
proof (intro allI impI)
  fix t' r assume c: "container (register t c l ds ps s) t' = Some r"
  show "(\<forall>f. factory r = Some f \<longrightarrow> inert f) \<and>
        (\<forall>c args this. implementation r = Some c \<longrightarrow> inert (ctor c args this))"
  proof (cases "t' = t")
    case True
    then have "r = \<lparr>implementation = Some c, lifestyle = l, dependencies = ds,
        constructorParams = ps, factory = None\<rparr>"
      using c by (simp add: register_def)
    then show ?thesis using assms(2) by simp
  next
    case False
    then have "container s t' = Some r" using c by (simp add: register_def)
    then show ?thesis using assms(1) unfolding inert_registry_def by blast
  qed
qed


lemma inert_configureProduction: "inert_registry (configureProduction new_Injector)"
  unfolding configureProduction_def
  by (intro inert_registry_register inert_registry_new inert_plain)







lemma inert_storage_resolved: "inert_registry storage_resolved"
  unfolding storage_resolved_def
  using inert_registry_frame [OF framingD [OF framing_getInstance inert_configureProduction]
      inert_configureProduction] .

subsection \<open>Scope handles\<close>

lemma createScope_fresh:
  assumes "createScope s = (h, s')"
  shows "h = nscopes s" and "nscopes s' = Suc (nscopes s)" and "scopes s' h = Map.empty"
    and "\<And>h'. h' \<noteq> h \<Longrightarrow> scopes s' h' = scopes s h'" and "container s' = container s"
  using assms by (auto simp: createScope_def)


subsection \<open>What a scoped build is given\<close>







section \<open>The claims\<close>

subsection \<open>Singleton lifetime\<close>

text \<open>
  C1, as stated, fails when a factory calls back into the container. Register
  \<open>T\<close> as Singleton with the factory
  \<open>() => { if (first) { first = false; inner = inj.getInstance(T) } return new X() }\<close>.
  The first resolution of \<open>T\<close> finds no cache entry and runs the factory; the factory's
  own resolution of \<open>T\<close> finds no entry either, runs the factory again, caches and
  returns the object 0; the outer call then overwrites the entry with the object 1 and
  returns that. Two successful resolutions of one Singleton token against one container
  have returned different instances, and the instance was built twice. The inner
  resolution is the one that starts from \<open>reentrant_inner\<close>.
\<close>
theorem singleton_identity_counterexample:
  "has_lifestyle reentrant_singleton IStorageToken Singleton \<and>
   fst (getInstance 3 reentrant_singleton IStorageToken None) = Inr (Obj 1) \<and>
   mem (snd (getInstance 3 reentrant_singleton IStorageToken None)) 1 = Obj 0 \<and>
   has_lifestyle reentrant_inner IStorageToken Singleton \<and>
   fst (getInstance 2 reentrant_inner IStorageToken None) = Inr (Obj 0) \<and>
   singletons (snd (getInstance 2 reentrant_inner IStorageToken None)) IStorageToken = Some (Obj 0) \<and>
   singletons (snd (getInstance 3 reentrant_singleton IStorageToken None)) IStorageToken = Some (Obj 1)"
  by (simp add: eval_simps has_lifestyle_def new_X_def reentrant_factory_def
      reentrant_inner_def reentrant_singleton_def)

text \<open>
  C1. For a token \<open>t\<close> registered as Singleton:
  \<^item> a resolution that finds no cache entry for \<open>t\<close> is exactly one call of
    \<open>createInstance\<close>, whose result it stores in the cache and returns (an error is
    passed on and nothing is stored);
  \<^item> a resolution that finds an entry returns it and leaves the whole state, the heap
    included, as it was: nothing is built;
  \<^item> hence, once a resolution of \<open>t\<close> has returned an instance \<open>v\<close>, that instance is
    the cache entry, and after any client program \<open>c\<close> run from there (scopes,
    resolutions, registrations, in any order) every resolution of \<open>t\<close>, with any scope
    context or none, returns \<open>v\<close> and changes nothing, as long as \<open>t\<close> is registered as
    Singleton.
\<close>
theorem singleton_identity:
  assumes "container s t = Some r" and "lifestyle r = Singleton"
      and "s1 = snd (getInstance n s t sc)"
      and "s2 = run m c s1"
  shows "(singletons s t = None \<longrightarrow>
            getInstance (Suc k) s t sc =
              (case createInstance (getInstance k) s r sc of
                 (Inl e, s') \<Rightarrow> (Inl e, s')
               | (Inr v, s') \<Rightarrow> (Inr v, s'\<lparr>singletons := (singletons s')(t \<mapsto> v)\<rparr>))) \<and>
         (\<forall>v. singletons s t = Some v \<longrightarrow> getInstance (Suc k) s t sc = (Inr v, s)) \<and>
         (\<forall>v. fst (getInstance n s t sc) = Inr v \<and> has_lifestyle s2 t Singleton \<longrightarrow>
            singletons s1 t = Some v \<and> getInstance (Suc k) s2 t sc' = (Inr v, s2))"
proof -
  have l: "has_lifestyle s t Singleton"
    using assms(1,2) by (simp add: has_lifestyle_def)
  have 1: "getInstance (Suc k) s t sc =
              (case createInstance (getInstance k) s r sc of
                 (Inl e, s') \<Rightarrow> (Inl e, s')
               | (Inr v, s') \<Rightarrow> (Inr v, s'\<lparr>singletons := (singletons s')(t \<mapsto> v)\<rparr>))"
    if "singletons s t = None"
    using that assms(1,2) by (simp add: resolveSingleton_def)
  have 2: "getInstance (Suc k) s t sc = (Inr v, s)" if "singletons s t = Some v" for v
    using singleton_cached [OF l that] .
  have 3: "singletons s1 t = Some v \<and> getInstance (Suc k) s2 t sc' = (Inr v, s2)"
    if a: "fst (getInstance n s t sc) = Inr v \<and> has_lifestyle s2 t Singleton" for v
  proof -
    have g: "getInstance n s t sc = (Inr v, s1)"
      using a assms(3) by (cases "getInstance n s t sc") auto
    have c: "singletons s1 t = Some v"
      using singleton_result [OF l g] .
    have "singletons s2 t = Some v"
      using singletons_grows [OF grows_run c] assms(4) by simp
    then show ?thesis using a c singleton_cached by simp
  qed
  show ?thesis using 1 2 3 by blast
qed

theorem singleton_identity_witness:
  "singletons (configureProduction new_Injector) IStorageToken = None \<and>
   getInstance (Suc 1) (configureProduction new_Injector) IStorageToken None =
     (case createInstance (getInstance 1) (configureProduction new_Injector)
             \<lparr>implementation = Some (plain_class ''FileStorage''), lifestyle = Singleton,
              dependencies = [], constructorParams = [Lit ''prod.db''], factory = None\<rparr> None of
        (Inl e, s') \<Rightarrow> (Inl e, s')
      | (Inr v, s') \<Rightarrow> (Inr v, s'\<lparr>singletons := (singletons s')(IStorageToken \<mapsto> v)\<rparr>)) \<and>
   fst (getInstance 2 (configureProduction new_Injector) IStorageToken None) = Inr (Obj 0) \<and>
   has_lifestyle (run 3 later_calls storage_resolved) IStorageToken Singleton \<and>
   singletons storage_resolved IStorageToken = Some (Obj 0) \<and>
   getInstance (Suc 1) (run 3 later_calls storage_resolved) IStorageToken (Some 1) =
     (Inr (Obj 0), run 3 later_calls storage_resolved) \<and>
   getInstance (Suc 1) storage_resolved IStorageToken (Some 0) = (Inr (Obj 0), storage_resolved)"
proof -
  have a: "container (configureProduction new_Injector) IStorageToken =
      Some \<lparr>implementation = Some (plain_class ''FileStorage''), lifestyle = Singleton,
              dependencies = [], constructorParams = [Lit ''prod.db''], factory = None\<rparr>"
    by (simp add: eval_simps has_lifestyle_def later_calls_def run_def storage_resolved_def)
  have b: "singletons (configureProduction new_Injector) IStorageToken = None"
    by (simp add: eval_simps has_lifestyle_def later_calls_def run_def storage_resolved_def)
  have c: "fst (getInstance 2 (configureProduction new_Injector) IStorageToken None) = Inr (Obj 0)"
    by (simp add: eval_simps has_lifestyle_def later_calls_def run_def storage_resolved_def)
  have d: "has_lifestyle (run 3 later_calls storage_resolved) IStorageToken Singleton"
    by (simp add: eval_simps has_lifestyle_def later_calls_def run_def storage_resolved_def)
  have a': "container storage_resolved IStorageToken =
      Some \<lparr>implementation = Some (plain_class ''FileStorage''), lifestyle = Singleton,
              dependencies = [], constructorParams = [Lit ''prod.db''], factory = None\<rparr>"
    by (simp add: eval_simps has_lifestyle_def later_calls_def run_def storage_resolved_def)
  have e: "singletons storage_resolved IStorageToken = Some (Obj 0)"
    by (simp add: eval_simps has_lifestyle_def later_calls_def run_def storage_resolved_def)
  show ?thesis
    using b c d e
      singleton_identity [OF a _ storage_resolved_def refl,
        where m=3 and c=later_calls and k=1 and sc'="Some 1"]
      singleton_identity [OF a' _ refl refl, where k=1 and sc="Some 0" and n=0 and m=0]
    by simp
qed

text \<open>
  C9, as stated, fails: the container replaces a singleton cache entry when a factory
  makes the container resolve its own token. Register \<open>T\<close> as Singleton with the factory
  \<open>() => { inj.registerFactory(T, () => new DatabaseStorage(), Singleton);
  inj.getInstance(T); return new X() }\<close>. The nested resolution (the one that starts from
  \<open>replaced_inner\<close>) creates the entry, object 0; when the factory returns, l.53 sets
  the entry again, to the object 1.
\<close>
theorem singleton_entry_retained_counterexample:
  "has_lifestyle replaced_inner IStorageToken Singleton \<and>
   fst (getInstance 2 replaced_inner IStorageToken None) = Inr (Obj 0) \<and>
   singletons (snd (getInstance 2 replaced_inner IStorageToken None)) IStorageToken = Some (Obj 0) \<and>
   fst (getInstance 3 replaced_entry IStorageToken None) = Inr (Obj 1) \<and>
   heap (snd (getInstance 3 replaced_entry IStorageToken None)) =
     heap (snd (getInstance 2 replaced_inner IStorageToken None)) @ [\<lparr>cls = ''X'', ctor_args = []\<rparr>] \<and>
   singletons (snd (getInstance 3 replaced_entry IStorageToken None)) IStorageToken = Some (Obj 1)"
  by (simp add: eval_simps has_lifestyle_def new_DatabaseStorage_def new_X_def
      replaced_entry_def replaced_inner_def replacing_factory_def)

text \<open>
  C9. An entry of the singleton cache that exists when a call of a public method starts
  is still there, with the same instance, when the call returns: after a resolution of
  any token with any scope context, and after any client program \<open>c\<close> (registrations of
  the token included). Every later resolution of the token while it is registered as
  Singleton returns that instance and changes nothing.
\<close>
theorem singleton_entry_retained:
  assumes "singletons s t = Some v"
  shows "singletons (snd (getInstance n s u sc)) t = Some v \<and>
         singletons (run n c s) t = Some v \<and>
         (has_lifestyle (run n c s) t Singleton \<longrightarrow>
            getInstance (Suc k) (run n c s) t sc' = (Inr v, run n c s))"
proof -
  have 1: "singletons (snd (getInstance n s u sc)) t = Some v"
    using singletons_grows [OF grows_getInstance assms] .
  have 2: "singletons (run n c s) t = Some v"
    using singletons_grows [OF grows_run assms] .
  show ?thesis using 1 2 singleton_cached by blast
qed

theorem singleton_entry_retained_witness:
  "singletons storage_resolved IStorageToken = Some (Obj 0) \<and>
   singletons (snd (getInstance 3 storage_resolved IProcessorToken (Some 0))) IStorageToken = Some (Obj 0) \<and>
   singletons (run 3 later_calls storage_resolved) IStorageToken = Some (Obj 0) \<and>
   has_lifestyle (run 3 later_calls storage_resolved) IStorageToken Singleton \<and>
   getInstance (Suc 0) (run 3 later_calls storage_resolved) IStorageToken (Some 1) =
     (Inr (Obj 0), run 3 later_calls storage_resolved)"
proof -
  have a: "singletons storage_resolved IStorageToken = Some (Obj 0)"
    by (simp add: eval_simps has_lifestyle_def later_calls_def run_def storage_resolved_def)
  have b: "has_lifestyle (run 3 later_calls storage_resolved) IStorageToken Singleton"
    by (simp add: eval_simps has_lifestyle_def later_calls_def run_def storage_resolved_def)
  show ?thesis
    using a b singleton_entry_retained [OF a, where n=3 and u=IProcessorToken and sc="Some 0"
        and c=later_calls and k=0 and sc'="Some 1"]
    by simp
qed




subsection \<open>Scoped lifetime\<close>







subsection \<open>PerRequest lifetime\<close>




subsection \<open>Building\<close>

text \<open>
  C6. A constructor-style registration with dependency tokens \<open>[A, B]\<close> and literal
  parameters \<open>[p]\<close>: when \<open>A\<close> resolves to \<open>a\<close> and then \<open>B\<close> (in the state \<open>A\<close>'s
  resolution left) resolves to \<open>b\<close>, the build is the invocation of the class with the
  argument list \<open>[a, b, p]\<close>. For a constructor that only keeps its parameters the build
  returns the new object and adds nothing else to the state; for any constructor that
  does not return an object of its own, a successful build returns the new object, made
  with \<open>[a, b, p]\<close>.
\<close>
theorem constructor_argument_order:
  assumes "factory r = None" and "implementation r = Some c"
      and "dependencies r = [A, B]" and "constructorParams r = [p]"
      and "fst (getInstance n s A sc) = Inr a" and "s1 = snd (getInstance n s A sc)"
      and "fst (getInstance n s1 B sc) = Inr b" and "s2 = snd (getInstance n s1 B sc)"
  shows "createInstance (getInstance n) s r sc = new_obj (getInstance n) c [a, b, p] s2 \<and>
         (ctor c [a, b, p] (length (heap s2)) = Return Undefined \<longrightarrow>
            createInstance (getInstance n) s r sc =
              (Inr (Obj (length (heap s2))),
               s2\<lparr>heap := heap s2 @ [\<lparr>cls = cname c, ctor_args = [a, b, p]\<rparr>]\<rparr>)) \<and>
         (\<forall>v. returns_this (ctor c [a, b, p] (length (heap s2))) \<and>
            fst (createInstance (getInstance n) s r sc) = Inr v \<longrightarrow>
            v = Obj (length (heap s2)) \<and>
            heap (snd (createInstance (getInstance n) s r sc)) ! length (heap s2) =
              \<lparr>cls = cname c, ctor_args = [a, b, p]\<rparr>)"
proof -
  have 1: "getInstance n s A sc = (Inr a, s1)"
    using assms(5,6) by (cases "getInstance n s A sc") auto
  have 2: "getInstance n s1 B sc = (Inr b, s2)"
    using assms(7,8) by (cases "getInstance n s1 B sc") auto
  have "resolveDependencies (getInstance n) [A, B] s sc = (Inr [a, b], s2)"
    using 1 2 by simp
  then have 3: "createInstance (getInstance n) s r sc = new_obj (getInstance n) c [a, b, p] s2"
    using assms(1-4) by (simp add: createInstance_def)
  have 4: "v = Obj (length (heap s2)) \<and>
            heap (snd (createInstance (getInstance n) s r sc)) ! length (heap s2) =
              \<lparr>cls = cname c, ctor_args = [a, b, p]\<rparr>"
    if a: "returns_this (ctor c [a, b, p] (length (heap s2))) \<and>
            fst (createInstance (getInstance n) s r sc) = Inr v" for v
  proof -
    obtain s3 where "new_obj (getInstance n) c [a, b, p] s2 = (Inr v, s3)"
      using a 3 by (cases "new_obj (getInstance n) c [a, b, p] s2") auto
    from new_obj_fresh [OF growing_getInstance _ this] a 3 this show ?thesis by simp
  qed
  have 5: "ctor c [a, b, p] (length (heap s2)) = Return Undefined \<longrightarrow>
            createInstance (getInstance n) s r sc =
              (Inr (Obj (length (heap s2))),
               s2\<lparr>heap := heap s2 @ [\<lparr>cls = cname c, ctor_args = [a, b, p]\<rparr>]\<rparr>)"
    using 3 by (simp add: new_obj_def)
  show ?thesis using 3 4 5 by blast
qed

theorem constructor_argument_order_witness:
  "returns_this (ctor (plain_class ''Report'') [Obj 0, Obj 1, Lit ''weekly''] 2) \<and>
   fst (getInstance 2 (configureProduction new_Injector) ILoggerToken None) = Inr (Obj 0) \<and>
   fst (getInstance 2 (snd (getInstance 2 (configureProduction new_Injector) ILoggerToken None))
          IStorageToken None) = Inr (Obj 1) \<and>
   fst (createInstance (getInstance 2) (configureProduction new_Injector) report_registration None)
     = Inr (Obj 2) \<and>
   heap (snd (createInstance (getInstance 2) (configureProduction new_Injector)
     report_registration None)) ! 2 =
     \<lparr>cls = ''Report'', ctor_args = [Obj 0, Obj 1, Lit ''weekly'']\<rparr>"
proof -
  have a: "fst (getInstance 2 (configureProduction new_Injector) ILoggerToken None) = Inr (Obj 0)"
    by (simp add: eval_simps report_registration_def)
  have b: "fst (getInstance 2 (snd (getInstance 2 (configureProduction new_Injector) ILoggerToken None))
          IStorageToken None) = Inr (Obj 1)"
    by (simp add: eval_simps report_registration_def)
  have c: "length (heap (snd (getInstance 2 (snd (getInstance 2 (configureProduction new_Injector) ILoggerToken None))
          IStorageToken None))) = 2"
    by (simp add: eval_simps report_registration_def)
  have p: "ctor (plain_class ''Report'') [Obj 0, Obj 1, Lit ''weekly''] k = Return Undefined" for k
    by (simp add: plain_class_def ctor_def)
  have r: "factory report_registration = None"
    "implementation report_registration = Some (plain_class ''Report'')"
    "dependencies report_registration = [ILoggerToken, IStorageToken]"
    "constructorParams report_registration = [Lit ''weekly'']"
    by (simp_all add: report_registration_def)
  note t = constructor_argument_order [OF r a refl b refl]
  have w: "createInstance (getInstance 2) (configureProduction new_Injector) report_registration None =
      (Inr (Obj 2),
       (snd (getInstance 2 (snd (getInstance 2 (configureProduction new_Injector) ILoggerToken None))
          IStorageToken None))
       \<lparr>heap := heap (snd (getInstance 2 (snd (getInstance 2 (configureProduction new_Injector)
          ILoggerToken None)) IStorageToken None)) @
          [\<lparr>cls = ''Report'', ctor_args = [Obj 0, Obj 1, Lit ''weekly'']\<rparr>]\<rparr>)"
    using t [THEN conjunct2, THEN conjunct1, THEN mp, OF p] c
    by (simp add: report_registration_def plain_class_def cname_def)
  show ?thesis
    using a b c p by (simp add: w nth_append)
qed

subsection \<open>Registration\<close>

text \<open>
  C8. Registering a token again overwrites its registration entirely: the state after
  two registrations of \<open>t\<close> (each by \<open>register\<close> or \<open>registerFactory\<close>) is the state
  after the second alone, the stored registration is exactly the second one, and
  resolving \<open>t\<close> gives the same result and the same final state.
\<close>
theorem registration_overwrites:
  "register t c l ds ps (register t c' l' ds' ps' s) = register t c l ds ps s \<and>
   register t c l ds ps (registerFactory t f' l' s) = register t c l ds ps s \<and>
   registerFactory t f l (register t c' l' ds' ps' s) = registerFactory t f l s \<and>
   registerFactory t f l (registerFactory t f' l' s) = registerFactory t f l s \<and>
   container (register t c l ds ps (register t c' l' ds' ps' s)) t =
     Some \<lparr>implementation = Some c, lifestyle = l, dependencies = ds,
           constructorParams = ps, factory = None\<rparr> \<and>
   container (register t c l ds ps (registerFactory t f' l' s)) t =
     Some \<lparr>implementation = Some c, lifestyle = l, dependencies = ds,
           constructorParams = ps, factory = None\<rparr> \<and>
   container (registerFactory t f l (register t c' l' ds' ps' s)) t =
     Some \<lparr>implementation = None, lifestyle = l, dependencies = [],
           constructorParams = [], factory = Some f\<rparr> \<and>
   container (registerFactory t f l (registerFactory t f' l' s)) t =
     Some \<lparr>implementation = None, lifestyle = l, dependencies = [],
           constructorParams = [], factory = Some f\<rparr> \<and>
   getInstance n (register t c l ds ps (register t c' l' ds' ps' s)) t sc =
     getInstance n (register t c l ds ps s) t sc \<and>
   getInstance n (register t c l ds ps (registerFactory t f' l' s)) t sc =
     getInstance n (register t c l ds ps s) t sc \<and>
   getInstance n (registerFactory t f l (register t c' l' ds' ps' s)) t sc =
     getInstance n (registerFactory t f l s) t sc \<and>
   getInstance n (registerFactory t f l (registerFactory t f' l' s)) t sc =
     getInstance n (registerFactory t f l s) t sc"
  by (simp add: register_def registerFactory_def)

subsection \<open>Errors\<close>




subsection \<open>Frame\<close>




end
